theory Spec2Isabelle
  imports Main "HOL-Library.Word"
begin

section \<open>Identifier codec\<close>

text \<open>
  The multi-client of \<^verbatim>\<open>src/multiclient.go\<close> tags overlay addresses with a subclient
  index through \<^verbatim>\<open>addIdentifier\<close> and \<^verbatim>\<open>removeIdentifier\<close>. Only the pattern
  \<^verbatim>\<open>identifierRe = "^__\\d+__$"\<close> is declared in that file; the two functions are
  called there but defined elsewhere in the repository.
\<close>

type_synonym bytes = "8 word list"

definition digit_char :: "nat \<Rightarrow> char" where
  "digit_char d = ''0123456789'' ! (d mod 10)"

function digits :: "nat \<Rightarrow> string" where
  "digits n = (if n < 10 then [digit_char n] else digits (n div 10) @ [digit_char (n mod 10)])"
  by pat_completeness auto
termination
  by (relation "measure (\<lambda>n. n)") auto

text \<open>Decimal rendering of a Go \<^verbatim>\<open>int\<close>, as \<^verbatim>\<open>strconv.Itoa\<close> prints it.\<close>

definition Itoa :: "int \<Rightarrow> string" where
  "Itoa i = (if i < 0 then CHR ''-'' # digits (nat (- i)) else digits (nat i))"

definition is_digit :: "char \<Rightarrow> bool" where
  "is_digit c = (c \<in> set ''0123456789'')"

text \<open>
  \<^verbatim>\<open>identifierRe\<close> (line 24): two underscores, one or more ASCII digits, two
  underscores, anchored at both ends of the text.
\<close>

definition matchIdentifierRe :: "string \<Rightarrow> bool" where
  "matchIdentifierRe s =
     (4 < length s \<and> take 2 s = ''__'' \<and> drop (length s - 2) s = ''__''
      \<and> list_all is_digit (take (length s - 4) (drop 2 s)))"

text \<open>
  Modelled from the spec: \<^verbatim>\<open>addIdentifier\<close> is not in the available sources. The
  spec (4.A): "addTag(base, n) returns base when n == -1, else "__n__." + base".
\<close>

definition addIdentifier :: "string \<Rightarrow> int \<Rightarrow> string" where
  "addIdentifier base n = (if n = - 1 then base else ''__'' @ Itoa n @ ''__.'' @ base)"

text \<open>
  Modelled from the spec: \<^verbatim>\<open>removeIdentifier\<close> is not in the available sources. The
  spec (4.A): "stripTag(addr) splits on the first '.'; if the leading segment matches the
  regular expression, returns (remainder, matched segment), else returns (addr, "")".
  An address without a dot is its own leading segment, with an empty remainder.
\<close>

definition leading_segment :: "string \<Rightarrow> string" where
  "leading_segment addr = takeWhile (\<lambda>c. c \<noteq> CHR ''.'') addr"

definition remainder :: "string \<Rightarrow> string" where
  "remainder addr = drop 1 (dropWhile (\<lambda>c. c \<noteq> CHR ''.'') addr)"

definition removeIdentifier :: "string \<Rightarrow> string \<times> string" where
  "removeIdentifier addr =
     (if matchIdentifierRe (leading_segment addr)
      then (remainder addr, leading_segment addr)
      else (addr, ''''))"

text \<open>The tag that subclient index \<open>n\<close> puts in front of an address.\<close>

definition tag_of :: "int \<Rightarrow> string" where
  "tag_of n = ''__'' @ Itoa n @ ''__''"


section \<open>Payloads and messages\<close>

datatype error = Err string | NcpClosed | NcpSessionClosed

datatype ptype = BINARY | TEXT | ACK | SESSION

text \<open>
  \<^verbatim>\<open>payloads.Payload\<close>, with the fields that multiclient.go sets and reads (lines 189,
  253-258). A nil byte slice and an empty one are both the empty list.
\<close>

record payload =
  p_Type :: ptype
  p_Pid :: bytes
  p_Data :: bytes
  p_IsSession :: bool

text \<open>
  Modelled from the spec: the payload builders that multiclient.go calls,
  \<^verbatim>\<open>newBinaryPayload(data, pid)\<close> with two arguments and \<^verbatim>\<open>newAckPayload(pid)\<close>, are not
  in the available sources (\<^verbatim>\<open>src/message.go\<close> belongs to another package, whose
  \<^verbatim>\<open>newBinaryPayload\<close> takes four arguments and whose payloads have no \<^verbatim>\<open>Pid\<close> field).
  The spec (4.E) has a request "create a fresh message-id, build a binary payload":
  this is the call \<^verbatim>\<open>newBinaryPayload(data, nil)\<close> of \<^verbatim>\<open>Send\<close> and \<^verbatim>\<open>SendWithClient\<close>,
  here \<open>pid = None\<close>, with \<open>rnd\<close> the outcome of drawing the fresh identifier, whose
  error the two callers return (lines 186-188, 208-210). The spec (4.D, 8) has the
  Reply closure, "when invoked with nil", build "an ACK payload for msg.Pid" and, "when
  invoked with bytes", "a binary payload for msg.Pid", "in both cases with Pid equal to
  the originating request's message-id": this is \<open>newAckPayload\<close> and the call
  \<^verbatim>\<open>newBinaryPayload(response, pid)\<close>, here \<open>pid = Some (Pid msg)\<close>.
\<close>

definition newBinaryPayload :: "error + bytes \<Rightarrow> bytes \<Rightarrow> bytes option \<Rightarrow> error + payload" where
  "newBinaryPayload rnd data pid =
     (case pid of
        None \<Rightarrow>
          (case rnd of
             Inl e \<Rightarrow> Inl e
           | Inr fresh \<Rightarrow>
               Inr \<lparr>p_Type = BINARY, p_Pid = fresh, p_Data = data, p_IsSession = False\<rparr>)
      | Some p \<Rightarrow> Inr \<lparr>p_Type = BINARY, p_Pid = p, p_Data = data, p_IsSession = False\<rparr>)"

definition newAckPayload :: "bytes \<Rightarrow> error + payload" where
  "newAckPayload pid = Inr \<lparr>p_Type = ACK, p_Pid = pid, p_Data = [], p_IsSession = False\<rparr>"

text \<open>
  The \<^verbatim>\<open>Message\<close> fields that multiclient.go reads and writes. The \<^verbatim>\<open>Reply\<close> closure
  that the router attaches is the function \<open>Reply\<close> below, applied to the message.
\<close>

record message =
  Src :: string
  Data :: bytes
  Pid :: bytes
  IsSession :: bool
  Encrypted :: bool

section \<open>State of a multi-client\<close>

text \<open>
  A subclient handle. \<^verbatim>\<open>responseChannels\<close> is a Go map from message id to a reply
  channel; the model keeps the set of ids that have a channel installed.
\<close>

record client =
  c_identifier :: string
  responseChannels :: "bytes set"

text \<open>The session configuration is opaque to this layer: a list of settings.\<close>

type_synonym session_config = "(string \<times> int) list"

record ClientConfig =
  MsgChanLen :: nat
  MsgCacheExpiration :: int
  SessionConfig :: session_config

text \<open>
  An \<^verbatim>\<open>ncp.Session\<close> is an external object; the model keeps the arguments it was
  created with. The sorted list of local client ids and the write callback that
  \<^verbatim>\<open>newSession\<close> also hands to \<^verbatim>\<open>ncp.NewSession\<close> do not reach the session table and
  are left out.
\<close>

record session =
  s_remoteAddr :: string
  s_sessionID :: bytes
  s_config :: session_config

text \<open>
  Modelled from the spec: \<^verbatim>\<open>sessionKey\<close> is not in the available sources. The spec
  (4.F): "computes sessionKey = (remoteAddr, sessionID)".
\<close>

type_synonym skey = "string \<times> bytes"

definition sessionKey :: "string \<Rightarrow> bytes \<Rightarrow> skey" where
  "sessionKey remoteAddr sessionID = (remoteAddr, sessionID)"

text \<open>
  Calls made on the external collaborators (subclients and sessions), in the order
  they are made. Calls to \<^verbatim>\<open>log.Println\<close> are not recorded.
\<close>

datatype call =
    CSend int "string list" "payload option" bool "nat list"
  | CClose int
  | SReceiveWith session string string bytes
  | SDial session
  | SAccept session
  | SClose session

text \<open>
  \<^verbatim>\<open>MultiClient\<close> (lines 28-43). \<open>Clients\<close> is the Go map of subclient pointers;
  \<open>DefaultClient\<close> points into it, so it is the index of the subclient it aliases, or
  \<open>None\<close> for a nil pointer. \<open>OnMessage\<close> is the sequence of messages published on the
  channel, oldest first; \<open>acceptSession\<close> is the content of the buffered channel of
  capacity 128; \<open>onClose_closed\<close> says whether the channel \<^verbatim>\<open>onClose\<close> has been closed;
  \<open>msgCache\<close> is the set of keys held by the cache that the router goroutine owns.
\<close>

record mc =
  config :: ClientConfig
  offset :: int
  Clients :: "int \<rightharpoonup> client"
  DefaultClient :: "int option"
  Address :: string
  OnMessage :: "message list"
  acceptSession :: "session list"
  onClose_closed :: bool
  sessions :: "skey \<rightharpoonup> session"
  isClosed :: bool
  msgCache :: "bytes set"
  calls :: "call list"

text \<open>What the external collaborators answer.\<close>

record env =
  clientSend :: "int \<Rightarrow> string list \<Rightarrow> payload option \<Rightarrow> bool \<Rightarrow> nat list \<Rightarrow> error option"
  ncpNewSession :: "string \<Rightarrow> bytes \<Rightarrow> session_config \<Rightarrow> error option"
  sessionReceiveWith :: "session \<Rightarrow> string \<Rightarrow> string \<Rightarrow> bytes \<Rightarrow> error option"
  sessionDial :: "session \<Rightarrow> error option"
  sessionAccept :: "session \<Rightarrow> error option"
  sessionClose :: "session \<Rightarrow> error option"
  mergoMerge :: "session_config \<Rightarrow> session_config \<Rightarrow> error + session_config"

text \<open>
  A Go call returns, panics, or blocks for ever on a channel operation.
\<close>

datatype 'a outcome = Returns 'a | Panics string | Blocks

text \<open>What a receive on a channel (or a select over receives) yields.\<close>

datatype 'a recv = NeverReady | Received 'a | RecvClosed

text \<open>
  \<^verbatim>\<open>for k := range m\<close> visits every key of a Go map once, in an order the language
  leaves open. The loops below take that order as a list \<open>ks\<close>.
\<close>

definition range_order :: "('k \<rightharpoonup> 'v) \<Rightarrow> 'k list \<Rightarrow> bool" where
  "range_order m ks = (distinct ks \<and> set ks = dom m)"


section \<open>Construction\<close>

text \<open>
  \<^verbatim>\<open>NewClient\<close> is external. \<open>mk i\<close> is the error with which the construction of the
  subclient of index \<open>i\<close> fails, or \<open>None\<close> when it succeeds.
\<close>

definition NewClient :: "(int \<Rightarrow> error option) \<Rightarrow> int \<Rightarrow> string \<Rightarrow> error + client" where
  "NewClient mk i identifier =
     (case mk i of
        Some e \<Rightarrow> Inl e
      | None \<Rightarrow> Inr \<lparr>c_identifier = identifier, responseChannels = {}\<rparr>)"

text \<open>
  The construction loop (lines 58-78), \<^verbatim>\<open>for i := -offset; i < numSubClients; i++\<close>.
  Each index is built by its own goroutine; the writes to the map and to \<^verbatim>\<open>success\<close>
  happen under a mutex and the keys differ, so the result is the one of doing the
  indices one after the other.
\<close>

definition client_indices :: "int \<Rightarrow> int \<Rightarrow> int list" where
  "client_indices off numSubClients = [- off..numSubClients - 1]"

fun build_clients ::
  "(int \<Rightarrow> error option) \<Rightarrow> string \<Rightarrow> int list \<Rightarrow> (int \<rightharpoonup> client) \<times> bool
   \<Rightarrow> (int \<rightharpoonup> client) \<times> bool" where
  "build_clients mk baseIdentifier [] acc = acc"
| "build_clients mk baseIdentifier (i # rest) (clients, success) =
     (case NewClient mk i (addIdentifier baseIdentifier i) of
        Inl e \<Rightarrow> build_clients mk baseIdentifier rest (clients, success)
      | Inr c \<Rightarrow> build_clients mk baseIdentifier rest (clients(i \<mapsto> c), True))"

text \<open>
  \<^verbatim>\<open>NewMultiClient\<close> (lines 45-182) up to the start of its two goroutines.
  \<open>merged\<close> is the result of \<^verbatim>\<open>MergedClientConfig(configs)\<close> and \<open>addr\<close> the string
  that \<^verbatim>\<open>address.MakeAddressString\<close> returns; both are computed outside this file.
\<close>

definition NewMultiClient ::
  "error + ClientConfig \<Rightarrow> (int \<Rightarrow> error option) \<Rightarrow> string \<Rightarrow> string \<Rightarrow> int \<Rightarrow> bool
   \<Rightarrow> error + mc" where
  "NewMultiClient merged mk addr baseIdentifier numSubClients originalClient =
     (case merged of
        Inl e \<Rightarrow> Inl e
      | Inr cfg \<Rightarrow>
          (let off = (if originalClient then 1 else 0);
               (clients, success) =
                  build_clients mk baseIdentifier (client_indices off numSubClients)
                    (Map.empty, False)
           in if \<not> success then Inl (Err ''failed to create any client'')
              else
                Inr \<lparr>config = cfg, offset = off, Clients = clients,
                     DefaultClient =
                       (if originalClient
                        then (case clients (- 1) of None \<Rightarrow> None | Some c \<Rightarrow> Some (- 1))
                        else (case clients 0 of None \<Rightarrow> None | Some c \<Rightarrow> Some 0)),
                     Address = addr, OnMessage = [], acceptSession = [],
                     onClose_closed = False, sessions = Map.empty, isClosed = False,
                     msgCache = {}, calls = []\<rparr>))"

section \<open>Sending\<close>

text \<open>
  Modelled from the spec: \<^verbatim>\<open>processDest\<close> is not in the available sources. The spec
  (4.E): "rewrites each destination in dests by prefixing it with __i__.".
\<close>

definition processDest :: "string list \<Rightarrow> int \<Rightarrow> string list" where
  "processDest dests clientID = map (\<lambda>d. addIdentifier d clientID) dests"

text \<open>
  \<^verbatim>\<open>sendWithClient\<close> (lines 201-204). The subclient's \<^verbatim>\<open>send\<close> is external: the call is
  recorded and \<open>clientSend env\<close> gives its result. On a nil subclient there is nothing
  to send with.
\<close>

definition sendWithClient ::
  "env \<Rightarrow> mc \<Rightarrow> int \<Rightarrow> string list \<Rightarrow> payload option \<Rightarrow> bool \<Rightarrow> nat list
   \<Rightarrow> (error option \<times> mc) outcome" where
  "sendWithClient env m clientID dests pl encrypted mhs =
     (case Clients m clientID of
        None \<Rightarrow> Panics ''nil pointer dereference''
      | Some c \<Rightarrow>
          Returns (clientSend env clientID (processDest dests clientID) pl encrypted mhs,
                   m\<lparr>calls := calls m @
                        [CSend clientID (processDest dests clientID) pl encrypted mhs]\<rparr>))"

text \<open>
  The broadcast \<^verbatim>\<open>send\<close> (lines 234-241); \<open>ks\<close> is the order in which \<^verbatim>\<open>range\<close> visits
  \<^verbatim>\<open>m.Clients\<close>.
\<close>

fun send ::
  "env \<Rightarrow> int list \<Rightarrow> mc \<Rightarrow> string list \<Rightarrow> payload option \<Rightarrow> bool \<Rightarrow> nat list
   \<Rightarrow> (error option \<times> mc) outcome" where
  "send env [] m dests pl encrypted mhs = Returns (None, m)"
| "send env (clientID # ks) m dests pl encrypted mhs =
     (case sendWithClient env m clientID dests pl encrypted mhs of
        Returns (Some e, m') \<Rightarrow> Returns (Some e, m')
      | Returns (None, m') \<Rightarrow> send env ks m' dests pl encrypted mhs
      | Panics s \<Rightarrow> Panics s
      | Blocks \<Rightarrow> Blocks)"

text \<open>
  The first loop of \<^verbatim>\<open>Send\<close> (lines 214-221). \<open>n\<close> is the length of the slice
  \<^verbatim>\<open>responseChannels\<close>; writing to it at an index outside \<open>0..n-1\<close> panics.
\<close>

fun Send_loop ::
  "env \<Rightarrow> nat \<Rightarrow> bytes \<Rightarrow> int list \<Rightarrow> mc \<Rightarrow> string list \<Rightarrow> payload \<Rightarrow> bool \<Rightarrow> nat list
   \<Rightarrow> (error option \<times> mc) outcome" where
  "Send_loop env n pidString [] m dests pl encrypted mhs = Returns (None, m)"
| "Send_loop env n pidString (clientID # ks) m dests pl encrypted mhs =
     (if clientID + offset m < 0 \<or> int n \<le> clientID + offset m
      then Panics ''index out of range''
      else
        (case Clients m clientID of
           None \<Rightarrow> Panics ''nil pointer dereference''
         | Some c \<Rightarrow>
             (case sendWithClient env
                     (m\<lparr>Clients := (Clients m)(clientID \<mapsto>
                           c\<lparr>responseChannels := insert pidString (responseChannels c)\<rparr>)\<rparr>)
                     clientID dests (Some pl) encrypted mhs of
                Returns (Some e, m') \<Rightarrow> Returns (Some e, m')
              | Returns (None, m') \<Rightarrow> Send_loop env n pidString ks m' dests pl encrypted mhs
              | Panics s \<Rightarrow> Panics s
              | Blocks \<Rightarrow> Blocks)))"

text \<open>The tag is taken off the source of a message: \<^verbatim>\<open>msg.Src, _ = removeIdentifier(msg.Src)\<close>.\<close>

definition stripSrc :: "message \<Rightarrow> message" where
  "stripSrc msg = msg\<lparr>Src := fst (removeIdentifier (Src msg))\<rparr>"

text \<open>
  \<^verbatim>\<open>Send\<close> (lines 206-232). \<open>ks\<close> is the order of \<^verbatim>\<open>range m.Clients\<close>, so
  \<^verbatim>\<open>len(m.Clients)\<close> is \<open>length ks\<close>; \<open>rsp\<close> is what the select over the reply channels
  yields.
\<close>

definition Send ::
  "env \<Rightarrow> int list \<Rightarrow> error + bytes \<Rightarrow> message recv \<Rightarrow> mc \<Rightarrow> string list \<Rightarrow> bytes \<Rightarrow> bool
   \<Rightarrow> nat list \<Rightarrow> ((error + message) \<times> mc) outcome" where
  "Send env ks rnd rsp m dests data encrypted mhs =
     (case newBinaryPayload rnd data None of
        Inl e \<Rightarrow> Returns (Inl e, m)
      | Inr pl \<Rightarrow>
          (case Send_loop env (length ks) (p_Pid pl) ks m dests pl encrypted mhs of
             Panics s \<Rightarrow> Panics s
           | Blocks \<Rightarrow> Blocks
           | Returns (Some e, m') \<Rightarrow> Returns (Inl e, m')
           | Returns (None, m') \<Rightarrow>
               (case rsp of
                  NeverReady \<Rightarrow> Blocks
                | Received msg \<Rightarrow> Returns (Inr (stripSrc msg), m')
                | RecvClosed \<Rightarrow> Returns (Inl (Err ''error reading response channel''), m'))))"

text \<open>
  \<^verbatim>\<open>SendWithClient\<close> (lines 184-199). A receive on the closed reply channel would yield
  a nil message, whose \<^verbatim>\<open>Src\<close> cannot be written.
\<close>

definition SendWithClient ::
  "env \<Rightarrow> error + bytes \<Rightarrow> message recv \<Rightarrow> mc \<Rightarrow> int \<Rightarrow> string list \<Rightarrow> bytes \<Rightarrow> bool
   \<Rightarrow> nat list \<Rightarrow> ((error + message) \<times> mc) outcome" where
  "SendWithClient env rnd rsp m clientID dests data encrypted mhs =
     (case newBinaryPayload rnd data None of
        Inl e \<Rightarrow> Returns (Inl e, m)
      | Inr pl \<Rightarrow>
          (case Clients m clientID of
             None \<Rightarrow> Panics ''nil pointer dereference''
           | Some c \<Rightarrow>
               (case sendWithClient env
                       (m\<lparr>Clients := (Clients m)(clientID \<mapsto>
                             c\<lparr>responseChannels :=
                                 insert (p_Pid pl) (responseChannels c)\<rparr>)\<rparr>)
                       clientID dests (Some pl) encrypted mhs of
                  Panics s \<Rightarrow> Panics s
                | Blocks \<Rightarrow> Blocks
                | Returns (Some e, m') \<Rightarrow> Returns (Inl e, m')
                | Returns (None, m') \<Rightarrow>
                    (case rsp of
                       NeverReady \<Rightarrow> Blocks
                     | Received msg \<Rightarrow> Returns (Inr (stripSrc msg), m')
                     | RecvClosed \<Rightarrow> Panics ''nil pointer dereference''))))"

section \<open>Sessions\<close>

text \<open>
  \<^verbatim>\<open>newSession\<close> (lines 243-278): \<^verbatim>\<open>ncp.NewSession\<close> is external and
  \<open>ncpNewSession env\<close> says whether it fails.
\<close>

definition newSession :: "env \<Rightarrow> mc \<Rightarrow> string \<Rightarrow> bytes \<Rightarrow> session_config \<Rightarrow> error + session" where
  "newSession env m remoteAddr sessionID cfg =
     (case ncpNewSession env remoteAddr sessionID cfg of
        Some e \<Rightarrow> Inl e
      | None \<Rightarrow> Inr \<lparr>s_remoteAddr = remoteAddr, s_sessionID = sessionID, s_config = cfg\<rparr>)"

text \<open>
  \<^verbatim>\<open>handleSessionMsg\<close> (lines 280-314). The send on \<^verbatim>\<open>m.acceptSession\<close> is the
  non-blocking one of a \<^verbatim>\<open>select\<close> with a \<^verbatim>\<open>default\<close> branch: it is skipped when the
  128 slots are taken.
\<close>

definition handleSessionMsg ::
  "env \<Rightarrow> mc \<Rightarrow> string \<Rightarrow> string \<Rightarrow> bytes \<Rightarrow> bytes \<Rightarrow> error option \<times> mc" where
  "handleSessionMsg env m localClientID src sessionID data =
     (let (remoteAddr, remoteClientID) = removeIdentifier src;
          k = sessionKey remoteAddr sessionID
      in case sessions m k of
           None \<Rightarrow>
             (case newSession env m remoteAddr sessionID (SessionConfig (config m)) of
                Inl e \<Rightarrow> (Some e, m)
              | Inr s \<Rightarrow>
                  (let m1 = m\<lparr>sessions := (sessions m)(k \<mapsto> s),
                               calls := calls m @
                                 [SReceiveWith s localClientID remoteClientID data]\<rparr>
                   in case sessionReceiveWith env s localClientID remoteClientID data of
                        Some e \<Rightarrow> (Some e, m1)
                      | None \<Rightarrow>
                          (None,
                           if length (acceptSession m1) < 128
                           then m1\<lparr>acceptSession := acceptSession m1 @ [s]\<rparr>
                           else m1)))
         | Some s \<Rightarrow>
             (sessionReceiveWith env s localClientID remoteClientID data,
              m\<lparr>calls := calls m @ [SReceiveWith s localClientID remoteClientID data]\<rparr>))"

text \<open>
  \<^verbatim>\<open>DialWithConfig\<close> (lines 324-354). \<open>rnd\<close> is what \<^verbatim>\<open>RandomBytes(SessionIDSize)\<close>
  returns; \<open>cfg = None\<close> is a nil \<^verbatim>\<open>config\<close>.
\<close>

definition DialWithConfig ::
  "env \<Rightarrow> error + bytes \<Rightarrow> mc \<Rightarrow> string \<Rightarrow> session_config option
   \<Rightarrow> (error + session) \<times> mc" where
  "DialWithConfig env rnd m remoteAddr cfg =
     (case (case cfg of
              None \<Rightarrow> Inr (SessionConfig (config m))
            | Some c \<Rightarrow> mergoMerge env (SessionConfig (config m)) c) of
        Inl e \<Rightarrow> (Inl e, m)
      | Inr merged \<Rightarrow>
          (case rnd of
             Inl e \<Rightarrow> (Inl e, m)
           | Inr sessionID \<Rightarrow>
               (case newSession env m remoteAddr sessionID merged of
                  Inl e \<Rightarrow> (Inl e, m)
                | Inr s \<Rightarrow>
                    (let m1 = m\<lparr>sessions := (sessions m)(sessionKey remoteAddr sessionID \<mapsto> s),
                                 calls := calls m @ [SDial s]\<rparr>
                     in case sessionDial env s of
                          Some e \<Rightarrow> (Inl e, m1)
                        | None \<Rightarrow> (Inr s, m1)))))"

text \<open>\<^verbatim>\<open>Dial\<close> (lines 320-322).\<close>

definition Dial :: "env \<Rightarrow> error + bytes \<Rightarrow> mc \<Rightarrow> string \<Rightarrow> (error + session) \<times> mc" where
  "Dial env rnd m remoteAddr = DialWithConfig env rnd m remoteAddr None"

text \<open>
  \<^verbatim>\<open>AcceptSession\<close> (lines 356-372). A receive on \<^verbatim>\<open>onClose\<close> is ready only once the
  channel is closed (nothing is ever sent on it), and then yields \<^verbatim>\<open>ok == false\<close>.
  When a session is queued and the channel is closed both cases of the \<^verbatim>\<open>select\<close> are
  ready and Go takes either: \<open>pick k\<close> says whether the \<open>k\<close>-th pass of the loop takes
  the queued session.
\<close>

function AcceptSession ::
  "env \<Rightarrow> (nat \<Rightarrow> bool) \<Rightarrow> nat \<Rightarrow> mc \<Rightarrow> ((error + session) \<times> mc) outcome" where
  "AcceptSession env pick k m =
     (case acceptSession m of
        [] \<Rightarrow> (if onClose_closed m then Returns (Inl NcpClosed, m) else Blocks)
      | s # q \<Rightarrow>
          (if onClose_closed m \<and> \<not> pick k then Returns (Inl NcpClosed, m)
           else
             (case sessionAccept env s of
                Some e \<Rightarrow>
                  AcceptSession env pick (Suc k)
                    (m\<lparr>acceptSession := q, calls := calls m @ [SAccept s]\<rparr>)
              | None \<Rightarrow>
                  Returns (Inr s, m\<lparr>acceptSession := q, calls := calls m @ [SAccept s]\<rparr>))))"
  by pat_completeness auto
termination
  by (relation "measure (\<lambda>(env, pick, k, m). length (acceptSession m))") auto

declare AcceptSession.simps [simp del]

text \<open>\<^verbatim>\<open>Accept\<close> (lines 374-376).\<close>

definition Accept ::
  "env \<Rightarrow> (nat \<Rightarrow> bool) \<Rightarrow> mc \<Rightarrow> ((error + session) \<times> mc) outcome" where
  "Accept env pick m = AcceptSession env pick 0 m"

section \<open>Closing\<close>

text \<open>
  \<^verbatim>\<open>Close\<close> (lines 378-403). \<open>sks\<close> and \<open>cks\<close> are the orders in which the two \<^verbatim>\<open>range\<close>
  loops visit \<^verbatim>\<open>m.sessions\<close> and \<^verbatim>\<open>m.Clients\<close>. An error of \<^verbatim>\<open>session.Close\<close> is logged
  and the loop goes on. Closing a closed channel panics.
\<close>

fun close_sessions :: "skey list \<Rightarrow> mc \<Rightarrow> mc" where
  "close_sessions [] m = m"
| "close_sessions (k # sks) m =
     (case sessions m k of
        None \<Rightarrow> close_sessions sks m
      | Some s \<Rightarrow> close_sessions sks (m\<lparr>calls := calls m @ [SClose s]\<rparr>))"

fun close_clients :: "int list \<Rightarrow> mc \<Rightarrow> mc" where
  "close_clients [] m = m"
| "close_clients (clientID # cks) m =
     (case Clients m clientID of
        None \<Rightarrow> close_clients cks m
      | Some c \<Rightarrow> close_clients cks (m\<lparr>calls := calls m @ [CClose clientID]\<rparr>))"

definition Close :: "skey list \<Rightarrow> int list \<Rightarrow> mc \<Rightarrow> (error option \<times> mc) outcome" where
  "Close sks cks m =
     (if isClosed m then Returns (None, m)
      else
        (let m1 = close_sessions sks m;
             m2 = close_clients cks m1;
             m3 = m2\<lparr>isClosed := True\<rparr>
         in if onClose_closed m3 then Panics ''close of closed channel''
            else Returns (None, m3\<lparr>onClose_closed := True\<rparr>)))"

text \<open>\<^verbatim>\<open>IsClosed\<close> (lines 405-409).\<close>

definition IsClosed :: "mc \<Rightarrow> bool" where
  "IsClosed m = isClosed m"

section \<open>The fan-in router\<close>

text \<open>
  The Reply closure (lines 159-174), for the message \<open>msg\<close> it is attached to.
  \<open>response = None\<close> is a nil slice. When a payload builder returns an error the
  closure logs it and goes on to call \<^verbatim>\<open>m.send\<close> with the nil payload. \<open>ks\<close> is the
  order of \<^verbatim>\<open>range m.Clients\<close> inside \<^verbatim>\<open>m.send\<close>, and \<open>rnd\<close> is passed on to the
  payload builder.
\<close>

definition reply_payload :: "error + bytes \<Rightarrow> message \<Rightarrow> bytes option \<Rightarrow> error + payload" where
  "reply_payload rnd msg response =
     (case response of
        None \<Rightarrow> newAckPayload (Pid msg)
      | Some bs \<Rightarrow> newBinaryPayload rnd bs (Some (Pid msg)))"

definition Reply ::
  "env \<Rightarrow> int list \<Rightarrow> error + bytes \<Rightarrow> mc \<Rightarrow> message \<Rightarrow> bytes option
   \<Rightarrow> (error option \<times> mc) outcome" where
  "Reply env ks rnd m msg response =
     send env ks m [Src msg]
       (case reply_payload rnd msg response of Inl e \<Rightarrow> None | Inr pl \<Rightarrow> Some pl)
       (Encrypted msg) []"

text \<open>
  What reaches the router goroutine: a message received from the subclient at position
  \<open>i\<close> of the select cases, a receive on a closed subclient channel, or the cache
  dropping keys whose time to live has run out.
\<close>

datatype event = Inbound int message | InboundClosed int | Expired "bytes list"

text \<open>
  One pass of the router loop (lines 141-177) after the select has returned. The
  message published on \<^verbatim>\<open>OnMessage\<close> is \<open>stripSrc msg\<close>, and its \<^verbatim>\<open>Reply\<close> field is the
  closure \<open>Reply\<close> above applied to that message.
\<close>

definition router_iter :: "env \<Rightarrow> mc \<Rightarrow> event \<Rightarrow> mc" where
  "router_iter env m ev =
     (case ev of
        Inbound i msg \<Rightarrow>
          (if IsSession msg
           then snd (handleSessionMsg env m (addIdentifier [] (i - offset m)) (Src msg)
                       (Pid msg) (Data msg))
           else if Pid msg \<in> msgCache m then m
           else m\<lparr>msgCache := insert (Pid msg) (msgCache m),
                   OnMessage := OnMessage m @ [stripSrc msg]\<rparr>)
      | InboundClosed i \<Rightarrow> m
      | Expired keys \<Rightarrow> m\<lparr>msgCache := msgCache m - set keys\<rparr>)"

text \<open>
  The router loop (lines 133-178) run from the top on the events \<open>evs\<close>, with no other
  goroutine closing the multi-client meanwhile: before each receive it looks at
  \<^verbatim>\<open>onClose\<close> and returns if that channel is closed. A router that is blocked in the
  select when \<open>Close\<close> runs is not a run of this function: it still handles the next
  event, by \<open>router_iter\<close>, before it looks at \<^verbatim>\<open>onClose\<close> again.
\<close>

fun router :: "env \<Rightarrow> mc \<Rightarrow> event list \<Rightarrow> mc" where
  "router env m [] = m"
| "router env m (ev # evs) =
     (if onClose_closed m then m else router env (router_iter env m ev) evs)"

section \<open>Notions used to state the properties\<close>

text \<open>An address begins with a subclient tag.\<close>

definition tagged :: "string \<Rightarrow> bool" where
  "tagged addr = matchIdentifierRe (leading_segment addr)"

text \<open>The call that \<^verbatim>\<open>sendWithClient\<close> makes on subclient \<open>clientID\<close>, and its result.\<close>

definition send_call :: "string list \<Rightarrow> payload option \<Rightarrow> bool \<Rightarrow> nat list \<Rightarrow> int \<Rightarrow> call" where
  "send_call dests pl encrypted mhs clientID =
     CSend clientID (processDest dests clientID) pl encrypted mhs"

definition send_result ::
  "env \<Rightarrow> string list \<Rightarrow> payload option \<Rightarrow> bool \<Rightarrow> nat list \<Rightarrow> int \<Rightarrow> error option" where
  "send_result env dests pl encrypted mhs clientID =
     clientSend env clientID (processDest dests clientID) pl encrypted mhs"

text \<open>Sample values for the concrete instances below.\<close>

definition env_ok :: env where
  "env_ok =
     \<lparr>clientSend = (\<lambda>clientID dests pl encrypted mhs. None),
      ncpNewSession = (\<lambda>remoteAddr sessionID cfg. None),
      sessionReceiveWith = (\<lambda>s localClientID remoteClientID data. None),
      sessionDial = (\<lambda>s. None),
      sessionAccept = (\<lambda>s. None),
      sessionClose = (\<lambda>s. None),
      mergoMerge = (\<lambda>dst src. Inr (src @ dst))\<rparr>"

definition cfg0 :: ClientConfig where
  "cfg0 = \<lparr>MsgChanLen = 1024, MsgCacheExpiration = 300, SessionConfig = []\<rparr>"

text \<open>
  A multi-client with the two subclients 0 and 1 and no original client, as
  \<open>NewMultiClient\<close> returns it when both constructions succeed.
\<close>

definition mc2 :: mc where
  "mc2 =
     \<lparr>config = cfg0, offset = 0,
      Clients = [0 \<mapsto> \<lparr>c_identifier = ''__0__.id'', responseChannels = {}\<rparr>,
                 1 \<mapsto> \<lparr>c_identifier = ''__1__.id'', responseChannels = {}\<rparr>],
      DefaultClient = Some 0, Address = ''id.pk'', OnMessage = [], acceptSession = [],
      onClose_closed = False, sessions = Map.empty, isClosed = False, msgCache = {},
      calls = []\<rparr>"

text \<open>An environment in which the send of subclient 0 fails.\<close>

definition env_fail0 :: env where
  "env_fail0 =
     env_ok\<lparr>clientSend :=
       (\<lambda>clientID dests pl encrypted mhs. if clientID = 0 then Some (Err ''down'') else None)\<rparr>"

text \<open>An environment in which the active open of every session fails.\<close>

definition env_nodial :: env where
  "env_nodial = env_ok\<lparr>sessionDial := (\<lambda>s. Some (Err ''dial timeout''))\<rparr>"

text \<open>An application message from subclient 1 of the peer \<open>a.pk\<close>.\<close>

definition msg_a :: message where
  "msg_a = \<lparr>Src = ''__1__.a.pk'', Data = [72, 105], Pid = [7, 7], IsSession = False,
            Encrypted = True\<rparr>"


text \<open>
  Three subclients are asked for and no original client; the constructions of indices
  0 and 2 fail and the one of index 1 succeeds. \<open>mc_partial\<close> is the multi-client that
  \<open>NewMultiClient\<close> then returns.
\<close>

definition mk_only1 :: "int \<Rightarrow> error option" where
  "mk_only1 i = (if i = 1 then None else Some (Err ''connect failed''))"

definition mc_partial :: mc where
  "mc_partial =
     \<lparr>config = cfg0, offset = 0,
      Clients = [1 \<mapsto> \<lparr>c_identifier = ''__1__.id'', responseChannels = {}\<rparr>],
      DefaultClient = None, Address = ''id.pk'', OnMessage = [], acceptSession = [],
      onClose_closed = False, sessions = Map.empty, isClosed = False, msgCache = {},
      calls = []\<rparr>"

text \<open>A subclient tag in front of an address that itself starts with a tag.\<close>

definition msg_double :: message where
  "msg_double = \<lparr>Src = ''__0__.__2__.x.pk'', Data = [72, 105], Pid = [5], IsSession = False,
                 Encrypted = False\<rparr>"

text \<open>What an operation returns, without the state.\<close>

definition result_of :: "('a \<times> mc) outcome \<Rightarrow> 'a outcome" where
  "result_of r = (case r of Returns (x, m') \<Rightarrow> Returns x | Panics s \<Rightarrow> Panics s | Blocks \<Rightarrow> Blocks)"

section \<open>Properties of the identifier codec\<close>

lemma is_digit_digit_char: "is_digit (digit_char k)"
proof -
  have "k mod 10 < 10" by simp
  then have "k mod 10 \<in> {0,1,2,3,4,5,6,7,8,9}" by (simp; arith)
  then show ?thesis unfolding is_digit_def digit_char_def by auto
qed

lemma digits_all: "list_all is_digit (digits n) \<and> digits n \<noteq> []"
proof (induction n rule: digits.induct)
  case (1 n)
  show ?case
  proof (cases "n < 10")
    case True
    then show ?thesis using is_digit_digit_char by (subst digits.simps, simp)+
  next
    case False
    then show ?thesis using 1 is_digit_digit_char by (subst digits.simps, simp)+
  qed
qed

lemma is_digit_not_dot: "is_digit c \<Longrightarrow> c \<noteq> CHR ''.''"
  by (auto simp: is_digit_def)

lemma tag_segment:
  assumes ds: "list_all is_digit ds" and ne: "ds \<noteq> []"
  shows "leading_segment (''__'' @ ds @ ''__.'' @ a) = ''__'' @ ds @ ''__''"
    and "remainder (''__'' @ ds @ ''__.'' @ a) = a"
    and "matchIdentifierRe (''__'' @ ds @ ''__'')"
proof -
  have nd: "\<forall>c\<in>set (''__'' @ ds @ ''__''). c \<noteq> CHR ''.''"
    using ds is_digit_not_dot by (auto simp: list_all_iff)
  have split: "''__'' @ ds @ ''__.'' @ a = (''__'' @ ds @ ''__'') @ (CHR ''.'' # a)"
    by simp
  show "leading_segment (''__'' @ ds @ ''__.'' @ a) = ''__'' @ ds @ ''__''"
    unfolding leading_segment_def split using nd
    by (subst takeWhile_append2) auto
  show "remainder (''__'' @ ds @ ''__.'' @ a) = a"
    unfolding remainder_def split using nd
    by (subst dropWhile_append2) auto
  show "matchIdentifierRe (''__'' @ ds @ ''__'')"
    using ds ne by (cases ds) (auto simp: matchIdentifierRe_def)
qed

lemma strip_add_nonneg:
  assumes "0 \<le> n"
  shows "removeIdentifier (addIdentifier a n) = (a, tag_of n)"
proof -
  have i: "Itoa n = digits (nat n)" using assms by (simp add: Itoa_def)
  have n1: "n \<noteq> - 1" using assms by simp
  have ds: "list_all is_digit (digits (nat n))" "digits (nat n) \<noteq> []"
    using digits_all[of "nat n"] by auto
  note ts = tag_segment[OF ds]
  show ?thesis
    using ts n1 by (simp add: removeIdentifier_def addIdentifier_def tag_of_def i)
qed

text \<open>
  C2 (as amended). For every address \<open>a\<close> and every index \<open>n \<ge> 0\<close>, stripping the tagged
  address gives back the address and the tag \<open>__n__\<close>. For index \<open>-1\<close> the address is
  left as it is, and stripping it gives the address and an empty tag provided that the
  part of \<open>a\<close> before its first dot is not itself of the form \<open>__digits__\<close>.
\<close>

theorem C2_strip_add_roundtrip:
  "(0 \<le> n \<longrightarrow> removeIdentifier (addIdentifier a n) = (a, tag_of n))
   \<and> addIdentifier a (- 1) = a
   \<and> (\<not> matchIdentifierRe (leading_segment a)
        \<longrightarrow> removeIdentifier (addIdentifier a (- 1)) = (a, ''''))"
  using strip_add_nonneg[of n a]
  by (simp add: addIdentifier_def removeIdentifier_def)

theorem C2_strip_add_roundtrip_witness:
  "removeIdentifier (addIdentifier ''id.pk'' 12) = (''id.pk'', ''__12__'')
   \<and> addIdentifier ''id.pk'' (- 1) = ''id.pk''
   \<and> removeIdentifier (addIdentifier ''id.pk'' (- 1)) = (''id.pk'', '''')"
proof -
  have h: "\<not> matchIdentifierRe (leading_segment ''id.pk'')"
    by (simp add: leading_segment_def matchIdentifierRe_def)
  have t: "tag_of 12 = ''__12__''"
    by (simp add: tag_of_def Itoa_def digit_char_def)
  have n: "(0::int) \<le> 12" by simp
  from C2_strip_add_roundtrip[of 12 "''id.pk''"] h t n show ?thesis by metis
qed

text \<open>
  The second law of C2 as the spec states it, for every address, fails on an address
  that already starts with a tag: the tag is taken off.
\<close>

theorem C2_untagged_counterexample:
  "removeIdentifier (addIdentifier ''__1__.x'' (- 1)) \<noteq> (''__1__.x'', '''')"
  by (simp add: addIdentifier_def removeIdentifier_def leading_segment_def
      matchIdentifierRe_def is_digit_def)

section \<open>Sample values\<close>

lemma mc2_constructed:
  "NewMultiClient (Inr cfg0) (\<lambda>i. None) ''id.pk'' ''id'' 2 False = Inr mc2"
  by (simp add: NewMultiClient_def client_indices_def upto_rec1 NewClient_def
      addIdentifier_def Itoa_def digit_char_def mc2_def)

lemma tag_strings:
  "addIdentifier ''a.pk'' 0 = ''__0__.a.pk''" "addIdentifier ''a.pk'' 1 = ''__1__.a.pk''"
  by (simp_all add: addIdentifier_def Itoa_def digit_char_def)

section \<open>The broadcast send\<close>

lemma sendWithClient_known:
  assumes "Clients m k = Some c"
  shows "sendWithClient env m k dests pl enc mhs =
           Returns (send_result env dests pl enc mhs k,
                    m\<lparr>calls := calls m @ [send_call dests pl enc mhs k]\<rparr>)"
  using assms by (simp add: sendWithClient_def send_result_def send_call_def)

lemma send_all_ok:
  assumes "set ks \<subseteq> dom (Clients m)"
    and "\<forall>k\<in>set ks. send_result env dests pl enc mhs k = None"
  shows "send env ks m dests pl enc mhs =
           Returns (None, m\<lparr>calls := calls m @ map (send_call dests pl enc mhs) ks\<rparr>)"
  using assms
proof (induction ks arbitrary: m)
  case Nil
  then show ?case by simp
next
  case (Cons k ks)
  from Cons.prems(1) obtain c where c: "Clients m k = Some c" by auto
  let ?m1 = "m\<lparr>calls := calls m @ [send_call dests pl enc mhs k]\<rparr>"
  have sub: "set ks \<subseteq> dom (Clients ?m1)" using Cons.prems(1) by simp
  have ok: "\<forall>j\<in>set ks. send_result env dests pl enc mhs j = None"
    using Cons.prems(2) by simp
  have k: "send_result env dests pl enc mhs k = None" using Cons.prems(2) by simp
  show ?case
    using Cons.IH[OF sub ok] k by (simp add: sendWithClient_known[OF c])
qed

lemma send_first_error:
  assumes "set (pre @ k # post) \<subseteq> dom (Clients m)"
    and "\<forall>j\<in>set pre. send_result env dests pl enc mhs j = None"
    and "send_result env dests pl enc mhs k = Some e"
  shows "send env (pre @ k # post) m dests pl enc mhs =
           Returns (Some e, m\<lparr>calls := calls m @ map (send_call dests pl enc mhs) (pre @ [k])\<rparr>)"
  using assms
proof (induction pre arbitrary: m)
  case Nil
  from Nil.prems(1) obtain c where c: "Clients m k = Some c" by auto
  show ?case using Nil.prems(3) by (simp add: sendWithClient_known[OF c])
next
  case (Cons j pre)
  from Cons.prems(1) obtain c where c: "Clients m j = Some c" by auto
  let ?m1 = "m\<lparr>calls := calls m @ [send_call dests pl enc mhs j]\<rparr>"
  have sub: "set (pre @ k # post) \<subseteq> dom (Clients ?m1)" using Cons.prems(1) by simp
  have ok: "\<forall>i\<in>set pre. send_result env dests pl enc mhs i = None"
    using Cons.prems(2) by simp
  have j: "send_result env dests pl enc mhs j = None" using Cons.prems(2) by simp
  show ?case
    using Cons.IH[OF sub ok Cons.prems(3)] j by (simp add: sendWithClient_known[OF c])
qed

text \<open>
  C6. The broadcast \<open>send\<close> calls the send of the subclients one after the other, in the
  order \<open>ks\<close> in which the map is visited. If every send succeeds it has called all of
  them and returns no error. If the send of \<open>k\<close> is the first to fail, the broadcast
  returns that error, and the calls made are those for the subclients before \<open>k\<close> and
  for \<open>k\<close>: none of the subclients after \<open>k\<close> is sent to.
\<close>

theorem C6_broadcast_first_error:
  assumes "range_order (Clients m) ks"
  shows "((\<forall>k\<in>set ks. send_result env dests pl enc mhs k = None) \<longrightarrow>
            send env ks m dests pl enc mhs =
              Returns (None, m\<lparr>calls := calls m @ map (send_call dests pl enc mhs) ks\<rparr>))
       \<and> (ks = pre @ k # post
            \<and> (\<forall>j\<in>set pre. send_result env dests pl enc mhs j = None)
            \<and> send_result env dests pl enc mhs k = Some e \<longrightarrow>
            send env ks m dests pl enc mhs =
              Returns (Some e,
                       m\<lparr>calls := calls m @ map (send_call dests pl enc mhs) (pre @ [k])\<rparr>))"
proof -
  have sub: "set ks \<subseteq> dom (Clients m)" using assms by (simp add: range_order_def)
  show ?thesis
    using send_all_ok[OF sub] send_first_error[of pre k post m] sub by blast
qed

theorem C6_broadcast_first_error_witness:
  "range_order (Clients mc2) [1, 0]
   \<and> send env_ok [1, 0] mc2 [''a.pk''] None True [] =
       Returns (None, mc2\<lparr>calls := [CSend 1 [''__1__.a.pk''] None True [],
                                     CSend 0 [''__0__.a.pk''] None True []]\<rparr>)
   \<and> send env_fail0 [1, 0] mc2 [''a.pk''] None True [] =
       Returns (Some (Err ''down''),
                mc2\<lparr>calls := [CSend 1 [''__1__.a.pk''] None True [],
                              CSend 0 [''__0__.a.pk''] None True []]\<rparr>)
   \<and> send env_fail0 [0, 1] mc2 [''a.pk''] None True [] =
       Returns (Some (Err ''down''), mc2\<lparr>calls := [CSend 0 [''__0__.a.pk''] None True []]\<rparr>)"
proof -
  have r1: "range_order (Clients mc2) [1, 0]"
    by (auto simp: range_order_def mc2_def)
  have r2: "range_order (Clients mc2) [0, 1]"
    by (auto simp: range_order_def mc2_def)
  have c: "calls mc2 = []" by (simp add: mc2_def)
  have a: "send env_ok [1, 0] mc2 [''a.pk''] None True [] =
       Returns (None, mc2\<lparr>calls := [CSend 1 [''__1__.a.pk''] None True [],
                                     CSend 0 [''__0__.a.pk''] None True []]\<rparr>)"
    using C6_broadcast_first_error[OF r1, of env_ok "[''a.pk'']" None True "[]"]
    by (simp add: send_result_def send_call_def processDest_def tag_strings env_ok_def c)
  have b: "send env_fail0 [1, 0] mc2 [''a.pk''] None True [] =
       Returns (Some (Err ''down''),
                mc2\<lparr>calls := [CSend 1 [''__1__.a.pk''] None True [],
                              CSend 0 [''__0__.a.pk''] None True []]\<rparr>)"
    using C6_broadcast_first_error[OF r1, of env_fail0 "[''a.pk'']" None True "[]" "[1]" 0 "[]"
        "Err ''down''"]
    by (simp add: send_result_def send_call_def processDest_def tag_strings env_fail0_def
        env_ok_def c)
  have d: "send env_fail0 [0, 1] mc2 [''a.pk''] None True [] =
       Returns (Some (Err ''down''), mc2\<lparr>calls := [CSend 0 [''__0__.a.pk''] None True []]\<rparr>)"
    using C6_broadcast_first_error[OF r2, of env_fail0 "[''a.pk'']" None True "[]" "[]" 0 "[1]"
        "Err ''down''"]
    by (simp add: send_result_def send_call_def processDest_def tag_strings env_fail0_def
        env_ok_def c)
  from r1 a b d show ?thesis by simp
qed

section \<open>The Reply closure\<close>




section \<open>Closing twice\<close>

text \<open>
  C9. \<open>Close\<close> on a closed multi-client returns nil and leaves the state as it is: no
  session and no subclient is closed again (no call is recorded) and the channel
  \<^verbatim>\<open>onClose\<close> is not closed again. So a \<open>Close\<close> that follows a \<open>Close\<close> that returned
  does nothing, whatever the orders in which the maps are visited.
\<close>

theorem C9_close_idempotent:
  "(isClosed m \<longrightarrow> Close sks cks m = Returns (None, m))
   \<and> (Close sks cks m = Returns (r, m') \<longrightarrow>
        r = None \<and> Close sks' cks' m' = Returns (None, m'))"
  by (auto simp: Close_def Let_def split: if_splits)

theorem C9_close_idempotent_witness:
  "Close [] [0, 1] mc2 =
     Returns (None, mc2\<lparr>calls := [CClose 0, CClose 1], isClosed := True,
                         onClose_closed := True\<rparr>)
   \<and> isClosed (mc2\<lparr>calls := [CClose 0, CClose 1], isClosed := True, onClose_closed := True\<rparr>)
   \<and> Close [] [1, 0]
        (mc2\<lparr>calls := [CClose 0, CClose 1], isClosed := True, onClose_closed := True\<rparr>) =
       Returns (None, mc2\<lparr>calls := [CClose 0, CClose 1], isClosed := True,
                           onClose_closed := True\<rparr>)"
proof -
  let ?m = "mc2\<lparr>calls := [CClose 0, CClose 1], isClosed := True, onClose_closed := True\<rparr>"
  have a: "Close [] [0, 1] mc2 = Returns (None, ?m)"
    by (simp add: Close_def mc2_def)
  have b: "isClosed ?m" by simp
  from C9_close_idempotent[of mc2 "[]" "[0, 1]" None ?m "[]" "[1, 0]"] a
  have c: "Close [] [1, 0] ?m = Returns (None, ?m)" by blast
  from C9_close_idempotent[of ?m "[]" "[1, 0]"] b
  have "Close [] [1, 0] ?m = Returns (None, ?m)" by blast
  with a b c show ?thesis by blast
qed

section \<open>A failed dial\<close>

text \<open>
  C10. When the configuration is merged, the session identifier drawn and the session
  created, and then the active open \<^verbatim>\<open>session.Dial\<close> fails with \<open>e\<close>,
  \<open>DialWithConfig\<close> returns \<open>e\<close> and the new session stays in the session table under
  the key of its remote address and identifier.
\<close>

theorem C10_dial_failure_keeps_session:
  assumes "(case cfg of None \<Rightarrow> Inr (SessionConfig (config m))
            | Some c \<Rightarrow> mergoMerge env (SessionConfig (config m)) c) = Inr merged"
    and "rnd = Inr sessionID"
    and "ncpNewSession env remoteAddr sessionID merged = None"
    and "sessionDial env
           \<lparr>s_remoteAddr = remoteAddr, s_sessionID = sessionID, s_config = merged\<rparr> = Some e"
  shows "DialWithConfig env rnd m remoteAddr cfg =
           (Inl e,
            m\<lparr>sessions := (sessions m)(sessionKey remoteAddr sessionID \<mapsto>
                  \<lparr>s_remoteAddr = remoteAddr, s_sessionID = sessionID, s_config = merged\<rparr>),
               calls := calls m @
                  [SDial \<lparr>s_remoteAddr = remoteAddr, s_sessionID = sessionID,
                          s_config = merged\<rparr>]\<rparr>)
         \<and> sessions (snd (DialWithConfig env rnd m remoteAddr cfg))
               (sessionKey remoteAddr sessionID) =
             Some \<lparr>s_remoteAddr = remoteAddr, s_sessionID = sessionID, s_config = merged\<rparr>"
  using assms by (simp add: DialWithConfig_def newSession_def Let_def)

theorem C10_dial_failure_keeps_session_witness:
  "DialWithConfig env_nodial (Inr [1, 2, 3, 4, 5, 6, 7, 8]) mc2 ''b.pk'' None =
     (Inl (Err ''dial timeout''),
      mc2\<lparr>sessions := [(''b.pk'', [1, 2, 3, 4, 5, 6, 7, 8]) \<mapsto>
               \<lparr>s_remoteAddr = ''b.pk'', s_sessionID = [1, 2, 3, 4, 5, 6, 7, 8],
                s_config = []\<rparr>],
          calls := [SDial \<lparr>s_remoteAddr = ''b.pk'', s_sessionID = [1, 2, 3, 4, 5, 6, 7, 8],
                           s_config = []\<rparr>]\<rparr>)
   \<and> sessions (snd (DialWithConfig env_nodial (Inr [1, 2, 3, 4, 5, 6, 7, 8]) mc2 ''b.pk'' None))
        (''b.pk'', [1, 2, 3, 4, 5, 6, 7, 8]) =
       Some \<lparr>s_remoteAddr = ''b.pk'', s_sessionID = [1, 2, 3, 4, 5, 6, 7, 8], s_config = []\<rparr>"
proof -
  have h1: "(case None of None \<Rightarrow> Inr (SessionConfig (config mc2))
            | Some c \<Rightarrow> mergoMerge env_nodial (SessionConfig (config mc2)) c) = Inr []"
    by (simp add: mc2_def cfg0_def)
  have h3: "ncpNewSession env_nodial ''b.pk'' [1, 2, 3, 4, 5, 6, 7, 8] [] = None"
    by (simp add: env_nodial_def env_ok_def)
  have h4: "sessionDial env_nodial
           \<lparr>s_remoteAddr = ''b.pk'', s_sessionID = [1, 2, 3, 4, 5, 6, 7, 8], s_config = []\<rparr>
           = Some (Err ''dial timeout'')"
    by (simp add: env_nodial_def env_ok_def)
  have s: "sessions mc2 = Map.empty" "calls mc2 = []" by (simp_all add: mc2_def)
  from C10_dial_failure_keeps_session[OF h1 refl h3 h4]
  show ?thesis by (simp add: sessionKey_def s)
qed

section \<open>Construction with failing subclients\<close>

lemma build_clients_result:
  "build_clients mk base idxs (cl, s) =
     ((\<lambda>i. if i \<in> set idxs \<and> mk i = None
            then Some \<lparr>c_identifier = addIdentifier base i, responseChannels = {}\<rparr>
            else cl i),
      s \<or> (\<exists>i\<in>set idxs. mk i = None))"
proof (induction idxs arbitrary: cl s)
  case Nil
  then show ?case by simp
next
  case (Cons j idxs)
  show ?case
  proof (cases "mk j")
    case None
    then show ?thesis
      by (auto simp: Cons.IH NewClient_def fun_eq_iff)
  next
    case (Some e)
    then show ?thesis
      by (auto simp: Cons.IH NewClient_def fun_eq_iff)
  qed
qed

lemma set_client_indices: "set (client_indices off n) = {i. - off \<le> i \<and> i < n}"
  by (auto simp: client_indices_def)

text \<open>
  C4. Once the client configuration is merged, \<open>NewMultiClient\<close> returns an error if and
  only if the construction of every subclient index from \<open>-offset\<close> up to
  \<open>numSubClients - 1\<close> fails. If at least one construction succeeds the constructor
  succeeds, and \<open>Clients\<close> holds exactly the indices whose construction succeeded: a
  failed index has no entry.
\<close>

theorem C4_constructor_fails_iff_all_fail:
  assumes "merged = Inr cfg"
  shows "((\<exists>e. NewMultiClient merged mk addr base n orig = Inl e)
            \<longleftrightarrow> (\<forall>i. - (if orig then 1 else 0) \<le> i \<and> i < n \<longrightarrow> mk i \<noteq> None))
       \<and> ((\<exists>i. - (if orig then 1 else 0) \<le> i \<and> i < n \<and> mk i = None) \<longrightarrow>
            (\<exists>m. NewMultiClient merged mk addr base n orig = Inr m
               \<and> (\<forall>i. Clients m i =
                     (if - (if orig then 1 else 0) \<le> i \<and> i < n \<and> mk i = None
                      then Some \<lparr>c_identifier = addIdentifier base i, responseChannels = {}\<rparr>
                      else None))))"
  using assms
  by (auto simp: NewMultiClient_def build_clients_result set_client_indices)


theorem C4_constructor_fails_iff_all_fail_witness:
  "(\<exists>m. NewMultiClient (Inr cfg0) mk_only1 ''id.pk'' ''id'' 3 False = Inr m
          \<and> (\<forall>i. Clients m i =
                (if 0 \<le> i \<and> i < 3 \<and> mk_only1 i = None
                 then Some \<lparr>c_identifier = addIdentifier ''id'' i, responseChannels = {}\<rparr>
                 else None)))
   \<and> (\<exists>e. NewMultiClient (Inr cfg0) (\<lambda>i. Some (Err ''connect failed'')) ''id.pk'' ''id'' 3 False
            = Inl e)"
proof -
  have h: "\<exists>i::int. 0 \<le> i \<and> i < 3 \<and> mk_only1 i = None"
    by (rule exI[of _ 1]) (simp add: mk_only1_def)
  have a: "\<forall>i::int. 0 \<le> i \<and> i < 3 \<longrightarrow> (\<lambda>i. Some (Err ''connect failed'')) i \<noteq> None"
    by simp
  from C4_constructor_fails_iff_all_fail[of "Inr cfg0" cfg0 mk_only1 "''id.pk''" "''id''" 3 False] h
  have 1: "\<exists>m. NewMultiClient (Inr cfg0) mk_only1 ''id.pk'' ''id'' 3 False = Inr m
          \<and> (\<forall>i. Clients m i =
                (if 0 \<le> i \<and> i < 3 \<and> mk_only1 i = None
                 then Some \<lparr>c_identifier = addIdentifier ''id'' i, responseChannels = {}\<rparr>
                 else None))"
    by simp
  from C4_constructor_fails_iff_all_fail[of "Inr cfg0" cfg0 "\<lambda>i. Some (Err ''connect failed'')"
      "''id.pk''" "''id''" 3 False] a
  have 2: "\<exists>e. NewMultiClient (Inr cfg0) (\<lambda>i. Some (Err ''connect failed'')) ''id.pk'' ''id'' 3 False
            = Inl e"
    by simp
  from 1 2 show ?thesis by (rule conjI)
qed

lemma mc_partial_constructed:
  "NewMultiClient (Inr cfg0) mk_only1 ''id.pk'' ''id'' 3 False = Inr mc_partial"
  by (simp add: NewMultiClient_def client_indices_def upto_rec1 NewClient_def mk_only1_def
      addIdentifier_def Itoa_def digit_char_def mc_partial_def)

text \<open>
  C5. With subclients 0 and 2 missing and subclient 1 alive, the constructor succeeds
  and the broadcast \<open>send\<close> reaches subclient 1 without error, but \<open>DefaultClient\<close> is
  nil (it is read at index 0), and \<open>Send\<close> panics: it sizes its slice of reply
  channels by the number of live subclients, 1, and writes to it at index 1.
\<close>

theorem C5_partial_construction_failing:
  "NewMultiClient (Inr cfg0) mk_only1 ''id.pk'' ''id'' 3 False = Inr mc_partial
   \<and> DefaultClient mc_partial = None
   \<and> Send env_ok [1] (Inr [9, 9]) (Received msg_a) mc_partial [''a.pk''] [72, 105] True []
       = Panics ''index out of range''
   \<and> send env_ok [1] mc_partial [''a.pk''] None True []
       = Returns (None, mc_partial\<lparr>calls := [CSend 1 [''__1__.a.pk''] None True []]\<rparr>)"
proof -
  have d: "DefaultClient mc_partial = None" by (simp add: mc_partial_def)
  have o: "offset mc_partial = 0" by (simp add: mc_partial_def)
  have s: "Send env_ok [1] (Inr [9, 9]) (Received msg_a) mc_partial [''a.pk''] [72, 105] True []
       = Panics ''index out of range''"
    by (simp add: Send_def newBinaryPayload_def o)
  have c: "Clients mc_partial 1 = Some \<lparr>c_identifier = ''__1__.id'', responseChannels = {}\<rparr>"
    "calls mc_partial = []"
    by (simp_all add: mc_partial_def)
  have b: "send env_ok [1] mc_partial [''a.pk''] None True []
       = Returns (None, mc_partial\<lparr>calls := [CSend 1 [''__1__.a.pk''] None True []]\<rparr>)"
    by (simp add: sendWithClient_def c processDest_def tag_strings env_ok_def)
  from mc_partial_constructed d s b show ?thesis by simp
qed

section \<open>What the operations leave unchanged\<close>

lemma sendWithClient_frame:
  "sendWithClient env m k dests pl enc mhs = Returns (r, m') \<Longrightarrow>
     isClosed m' = isClosed m \<and> onClose_closed m' = onClose_closed m"
  by (auto simp: sendWithClient_def split: option.splits)

lemma send_frame:
  "send env ks m dests pl enc mhs = Returns (r, m') \<Longrightarrow>
     isClosed m' = isClosed m \<and> onClose_closed m' = onClose_closed m"
proof (induction ks arbitrary: m)
  case Nil
  then show ?case by simp
next
  case (Cons k ks)
  then show ?case
    by (auto split: outcome.splits option.splits dest: sendWithClient_frame)
qed

lemma Send_loop_frame:
  "Send_loop env n pid ks m dests pl enc mhs = Returns (r, m') \<Longrightarrow>
     isClosed m' = isClosed m \<and> onClose_closed m' = onClose_closed m"
proof (induction ks arbitrary: m)
  case Nil
  then show ?case by simp
next
  case (Cons k ks)
  then show ?case
    by (fastforce split: outcome.splits option.splits if_splits dest: sendWithClient_frame)
qed

lemma Send_frame:
  "Send env ks rnd rsp m dests data enc mhs = Returns (r, m') \<Longrightarrow>
     isClosed m' = isClosed m \<and> onClose_closed m' = onClose_closed m"
  by (auto simp: Send_def split: sum.splits outcome.splits option.splits recv.splits
      dest: Send_loop_frame)

lemma SendWithClient_frame:
  "SendWithClient env rnd rsp m k dests data enc mhs = Returns (r, m') \<Longrightarrow>
     isClosed m' = isClosed m \<and> onClose_closed m' = onClose_closed m"
  by (fastforce simp: SendWithClient_def split: sum.splits outcome.splits option.splits recv.splits
      dest: sendWithClient_frame)

lemma Reply_frame:
  "Reply env ks rnd m msg response = Returns (r, m') \<Longrightarrow>
     isClosed m' = isClosed m \<and> onClose_closed m' = onClose_closed m"
  unfolding Reply_def by (rule send_frame)

lemma handleSessionMsg_frame:
  "handleSessionMsg env m l src sid data = (r, m') \<Longrightarrow>
     isClosed m' = isClosed m \<and> onClose_closed m' = onClose_closed m
     \<and> msgCache m' = msgCache m \<and> OnMessage m' = OnMessage m"
  by (auto simp: handleSessionMsg_def Let_def split: prod.splits option.splits sum.splits if_splits)

lemma router_iter_frame:
  "isClosed (router_iter env m ev) = isClosed m
   \<and> onClose_closed (router_iter env m ev) = onClose_closed m"
proof (cases ev)
  case (Inbound i msg)
  obtain r m' where h: "handleSessionMsg env m (addIdentifier [] (i - offset m)) (Src msg)
                       (Pid msg) (Data msg) = (r, m')"
    by (cases "handleSessionMsg env m (addIdentifier [] (i - offset m)) (Src msg)
                       (Pid msg) (Data msg)")
  show ?thesis using Inbound handleSessionMsg_frame[OF h] h by (simp add: router_iter_def)
qed (simp_all add: router_iter_def)

lemma router_frame:
  "isClosed (router env m evs) = isClosed m
   \<and> onClose_closed (router env m evs) = onClose_closed m"
  by (induction evs arbitrary: m) (simp_all add: router_iter_frame)

lemma DialWithConfig_frame:
  "isClosed (snd (DialWithConfig env rnd m a cfg)) = isClosed m
   \<and> onClose_closed (snd (DialWithConfig env rnd m a cfg)) = onClose_closed m"
  by (auto simp: DialWithConfig_def Let_def split: sum.splits option.splits)


lemma AcceptSession_frame:
  "AcceptSession env pick k m = Returns (r, m') \<Longrightarrow>
     isClosed m' = isClosed m \<and> onClose_closed m' = onClose_closed m"
proof (induction env pick k m rule: AcceptSession.induct)
  case (1 env pick k m)
  show ?case
  proof (cases "acceptSession m")
    case Nil
    with "1.prems" show ?thesis
      by (subst (asm) AcceptSession.simps) (auto split: if_splits)
  next
    case (Cons s q)
    show ?thesis
    proof (cases "onClose_closed m \<and> \<not> pick k")
      case True
      with Cons "1.prems" show ?thesis
        by (subst (asm) AcceptSession.simps) auto
    next
      case False
      show ?thesis
      proof (cases "sessionAccept env s")
        case None
        with False Cons "1.prems" show ?thesis
          by (subst (asm) AcceptSession.simps) auto
      next
        case (Some e)
        let ?m1 = "m\<lparr>acceptSession := q, calls := calls m @ [SAccept s]\<rparr>"
        from Some False Cons "1.prems"
        have "AcceptSession env pick (Suc k) ?m1 = Returns (r, m')"
          by (subst (asm) AcceptSession.simps) auto
        from "1.IH"[OF Cons False Some this] show ?thesis by simp
      qed
    qed
  qed
qed

lemma AcceptSession_closed:
  "onClose_closed m \<Longrightarrow>
     (\<exists>m'. AcceptSession env pick k m = Returns (Inl NcpClosed, m'))
     \<or> (\<exists>s m'. AcceptSession env pick k m = Returns (Inr s, m')
           \<and> s \<in> set (acceptSession m) \<and> sessionAccept env s = None)"
proof (induction env pick k m rule: AcceptSession.induct)
  case (1 env pick k m)
  show ?case
  proof (cases "acceptSession m")
    case Nil
    with "1.prems" show ?thesis
      by (subst AcceptSession.simps) simp
  next
    case (Cons s q)
    show ?thesis
    proof (cases "onClose_closed m \<and> \<not> pick k")
      case True
      with Cons show ?thesis
        by (subst AcceptSession.simps) simp
    next
      case False
      show ?thesis
      proof (cases "sessionAccept env s")
        case None
        with False Cons show ?thesis
          by (subst (1 2) AcceptSession.simps) auto
      next
        case (Some e)
        let ?m1 = "m\<lparr>acceptSession := q, calls := calls m @ [SAccept s]\<rparr>"
        have c: "onClose_closed ?m1" using "1.prems" by simp
        have eq: "AcceptSession env pick k m = AcceptSession env pick (Suc k) ?m1"
          using Some False Cons by (subst AcceptSession.simps) auto
        from "1.IH"[OF Cons False Some c] show ?thesis
          unfolding eq using Cons by auto
      qed
    qed
  qed
qed

lemma AcceptSession_shutdown_case:
  assumes "onClose_closed m" and "acceptSession m = [] \<or> \<not> pick k"
  shows "AcceptSession env pick k m = Returns (Inl NcpClosed, m)"
  using assms by (subst AcceptSession.simps) (auto split: list.splits)

lemma close_sessions_frame:
  "isClosed (close_sessions sks m) = isClosed m
   \<and> onClose_closed (close_sessions sks m) = onClose_closed m"
  by (induction sks arbitrary: m) (auto split: option.splits)

lemma close_clients_frame:
  "isClosed (close_clients cks m) = isClosed m
   \<and> onClose_closed (close_clients cks m) = onClose_closed m"
  by (induction cks arbitrary: m) (auto split: option.splits)

lemma Close_both:
  "isClosed m = onClose_closed m \<Longrightarrow> Close sks cks m = Returns (r, m') \<Longrightarrow>
     isClosed m' \<and> onClose_closed m'"
  by (auto simp: Close_def Let_def close_sessions_frame close_clients_frame split: if_splits)

lemma NewMultiClient_open:
  "NewMultiClient merged mk addr base n orig = Inr m \<Longrightarrow>
     \<not> isClosed m \<and> \<not> onClose_closed m"
  by (auto simp: NewMultiClient_def Let_def split: sum.splits prod.splits if_splits)

section \<open>After closing\<close>

lemma close_sessions_queue: "acceptSession (close_sessions sks m) = acceptSession m"
  by (induction sks arbitrary: m) (auto split: option.splits)

lemma close_clients_queue: "acceptSession (close_clients cks m) = acceptSession m"
  by (induction cks arbitrary: m) (auto split: option.splits)

lemma Close_queue:
  "Close sks cks m = Returns (r, m') \<Longrightarrow> acceptSession m' = acceptSession m"
  by (auto simp: Close_def Let_def close_sessions_queue close_clients_queue split: if_splits)

lemma AcceptSession_blocks:
  assumes "acceptSession m = []" and "\<not> onClose_closed m"
  shows "AcceptSession env pick k m = Blocks"
  using assms by (subst AcceptSession.simps) simp

text \<open>
  In a state where the flag \<^verbatim>\<open>isClosed\<close> and the channel \<^verbatim>\<open>onClose\<close> agree, as they do
  after construction and after every operation, a \<open>Close\<close> that returns leaves the flag
  set and the channel closed, and none of the other operations changes either (the
  lemmas of the previous section). An \<open>Accept\<close> that would block before the \<open>Close\<close>, on
  the empty queue, returns the closed sentinel after it. With sessions still queued,
  which \<open>Close\<close> leaves in place, \<open>Accept\<close> returns the closed sentinel if the select
  takes the receive on \<^verbatim>\<open>onClose\<close>; if it takes a queued session, the result is up to
  the \<^verbatim>\<open>Accept()\<close> of the sessions, which is outside this code.
\<close>

lemma after_Close:
  assumes "isClosed m = onClose_closed m" and "Close sks cks m = Returns (res, m')"
  shows "IsClosed m'"
    and "acceptSession m = [] \<Longrightarrow> \<not> isClosed m \<Longrightarrow>
           Accept env pick m = Blocks \<and> Accept env pick m' = Returns (Inl NcpClosed, m')"
    and "acceptSession m' = [] \<or> \<not> pick 0 \<Longrightarrow>
           Accept env pick m' = Returns (Inl NcpClosed, m')"
    and "result_of (Accept env pick m') = Returns (Inl NcpClosed)
         \<or> (\<exists>s. s \<in> set (acceptSession m') \<and> sessionAccept env s = None
               \<and> result_of (Accept env pick m') = Returns (Inr s))"
proof -
  from Close_both[OF assms] have c: "isClosed m' \<and> onClose_closed m'" .
  then show "IsClosed m'" by (simp add: IsClosed_def)
  from c have oc: "onClose_closed m'" by simp
  show "Accept env pick m = Blocks \<and> Accept env pick m' = Returns (Inl NcpClosed, m')"
    if q: "acceptSession m = []" and o: "\<not> isClosed m"
  proof -
    have "\<not> onClose_closed m" using o assms(1) by simp
    with q have b: "Accept env pick m = Blocks"
      by (simp add: Accept_def AcceptSession_blocks)
    have "acceptSession m' = []" using Close_queue[OF assms(2)] q by simp
    with oc have "Accept env pick m' = Returns (Inl NcpClosed, m')"
      by (simp add: Accept_def AcceptSession_shutdown_case)
    with b show ?thesis by simp
  qed
  show "Accept env pick m' = Returns (Inl NcpClosed, m')"
    if "acceptSession m' = [] \<or> \<not> pick 0"
    using that AcceptSession_shutdown_case[OF oc, of pick 0 env] by (simp add: Accept_def)
  show "result_of (Accept env pick m') = Returns (Inl NcpClosed)
         \<or> (\<exists>s. s \<in> set (acceptSession m') \<and> sessionAccept env s = None
               \<and> result_of (Accept env pick m') = Returns (Inr s))"
    using AcceptSession_closed[OF oc, of env pick 0]
    by (auto simp: Accept_def result_of_def)
qed

section \<open>De-duplication in the router\<close>

lemma router_iter_session:
  assumes "IsSession msg"
  shows "msgCache (router_iter env m (Inbound i msg)) = msgCache m
       \<and> OnMessage (router_iter env m (Inbound i msg)) = OnMessage m"
proof -
  obtain r m' where h: "handleSessionMsg env m (addIdentifier [] (i - offset m)) (Src msg)
                       (Pid msg) (Data msg) = (r, m')"
    by (cases "handleSessionMsg env m (addIdentifier [] (i - offset m)) (Src msg)
                       (Pid msg) (Data msg)")
  show ?thesis using assms handleSessionMsg_frame[OF h] h by (simp add: router_iter_def)
qed

lemma router_iter_seen:
  assumes "\<not> IsSession msg" and "Pid msg \<in> msgCache m"
  shows "router_iter env m (Inbound i msg) = m"
  using assms by (simp add: router_iter_def)

lemma router_iter_fresh:
  assumes "\<not> IsSession msg" and "Pid msg \<notin> msgCache m"
  shows "router_iter env m (Inbound i msg) =
           m\<lparr>msgCache := insert (Pid msg) (msgCache m),
             OnMessage := OnMessage m @ [stripSrc msg]\<rparr>"
  using assms by (simp add: router_iter_def)

lemma Pid_stripSrc: "Pid (stripSrc msg) = Pid msg"
  by (simp add: stripSrc_def)

text \<open>How one event that is not an expiry changes the cache and the published messages.\<close>

lemma router_iter_step:
  assumes "\<forall>ks. ev \<noteq> Expired ks"
  shows "(\<exists>i msg. ev = Inbound i msg \<and> \<not> IsSession msg \<and> Pid msg \<notin> msgCache m
            \<and> msgCache (router_iter env m ev) = insert (Pid msg) (msgCache m)
            \<and> OnMessage (router_iter env m ev) = OnMessage m @ [stripSrc msg])
       \<or> (msgCache (router_iter env m ev) = msgCache m
            \<and> OnMessage (router_iter env m ev) = OnMessage m
            \<and> (\<forall>i msg. ev = Inbound i msg \<and> \<not> IsSession msg \<longrightarrow> Pid msg \<in> msgCache m))"
proof (cases ev)
  case (Inbound i msg)
  show ?thesis
  proof (cases "IsSession msg")
    case True
    then show ?thesis using Inbound router_iter_session[of msg env m i] by simp
  next
    case False
    then show ?thesis
      using Inbound router_iter_seen[of msg m env i] router_iter_fresh[of msg m env i]
      by (cases "Pid msg \<in> msgCache m") auto
  qed
next
  case (InboundClosed i)
  then show ?thesis by (simp add: router_iter_def)
next
  case (Expired ks)
  with assms show ?thesis by simp
qed

lemma count_seen:
  assumes "\<not> onClose_closed m" and "\<forall>ks. Expired ks \<notin> set evs" and "p \<in> msgCache m"
  shows "length (filter (\<lambda>x. Pid x = p) (OnMessage (router env m evs)))
           = length (filter (\<lambda>x. Pid x = p) (OnMessage m))"
  using assms
proof (induction evs arbitrary: m)
  case Nil
  then show ?case by simp
next
  case (Cons ev evs)
  let ?m1 = "router_iter env m ev"
  have ne: "\<forall>ks. ev \<noteq> Expired ks" using Cons.prems(2) by auto
  have o: "\<not> onClose_closed ?m1" using Cons.prems(1) by (simp add: router_iter_frame)
  have ex: "\<forall>ks. Expired ks \<notin> set evs" using Cons.prems(2) by auto
  from router_iter_step[OF ne, of m env]
  have st: "p \<in> msgCache ?m1
          \<and> length (filter (\<lambda>x. Pid x = p) (OnMessage ?m1))
              = length (filter (\<lambda>x. Pid x = p) (OnMessage m))"
    using Cons.prems(3) by (auto simp: Pid_stripSrc)
  from Cons.IH[OF o ex] st Cons.prems(1) show ?case by simp
qed

lemma count_new:
  assumes "\<not> onClose_closed m" and "\<forall>ks. Expired ks \<notin> set evs" and "Pid msg \<notin> msgCache m"
    and "Inbound i msg \<in> set evs" and "\<not> IsSession msg"
  shows "length (filter (\<lambda>x. Pid x = Pid msg) (OnMessage (router env m evs)))
           = length (filter (\<lambda>x. Pid x = Pid msg) (OnMessage m)) + 1"
  using assms
proof (induction evs arbitrary: m)
  case Nil
  then show ?case by simp
next
  case (Cons ev evs)
  let ?m1 = "router_iter env m ev"
  let ?cnt = "\<lambda>s. length (filter (\<lambda>x. Pid x = Pid msg) (OnMessage s))"
  have ne: "\<forall>ks. ev \<noteq> Expired ks" using Cons.prems(2) by auto
  have o: "\<not> onClose_closed ?m1" using Cons.prems(1) by (simp add: router_iter_frame)
  have ex: "\<forall>ks. Expired ks \<notin> set evs" using Cons.prems(2) by auto
  have unfold: "router env m (ev # evs) = router env ?m1 evs" using Cons.prems(1) by simp
  from router_iter_step[OF ne, of m env]
  consider (pub) j x where "ev = Inbound j x" "\<not> IsSession x" "Pid x \<notin> msgCache m"
      "msgCache ?m1 = insert (Pid x) (msgCache m)" "OnMessage ?m1 = OnMessage m @ [stripSrc x]"
    | (same) "msgCache ?m1 = msgCache m" "OnMessage ?m1 = OnMessage m"
      "\<forall>j x. ev = Inbound j x \<and> \<not> IsSession x \<longrightarrow> Pid x \<in> msgCache m"
    by blast
  then show ?case
  proof cases
    case pub
    show ?thesis
    proof (cases "Pid x = Pid msg")
      case True
      have "Pid msg \<in> msgCache ?m1" using pub(4) True by simp
      from count_seen[OF o ex this, of env] have "?cnt (router env ?m1 evs) = ?cnt ?m1" .
      also have "?cnt ?m1 = ?cnt m + 1" using pub(5) True by (simp add: Pid_stripSrc)
      finally show ?thesis unfolding unfold .
    next
      case False
      have nc: "Pid msg \<notin> msgCache ?m1" using pub(4) False Cons.prems(3) by auto
      have mem: "Inbound i msg \<in> set evs" using Cons.prems(4) pub(1) False by auto
      from Cons.IH[OF o ex nc mem Cons.prems(5)]
      have "?cnt (router env ?m1 evs) = ?cnt ?m1 + 1" .
      also have "?cnt ?m1 = ?cnt m" using pub(5) False by (simp add: Pid_stripSrc)
      finally show ?thesis unfolding unfold by simp
    qed
  next
    case same
    have nc: "Pid msg \<notin> msgCache ?m1" using same(1) Cons.prems(3) by simp
    have "ev \<noteq> Inbound i msg" using same(3) Cons.prems(3,5) by auto
    then have mem: "Inbound i msg \<in> set evs" using Cons.prems(4) by auto
    from Cons.IH[OF o ex nc mem Cons.prems(5)]
    have "?cnt (router env ?m1 evs) = ?cnt ?m1 + 1" .
    then show ?thesis unfolding unfold using same(2) by simp
  qed
qed

text \<open>
  C1. An application (non-session) message whose \<open>Pid\<close> is in the cache is dropped:
  the state does not change. One whose \<open>Pid\<close> is not in the cache has its \<open>Pid\<close> added
  and is published. So, while the router runs and no key expires, a message that
  arrives any number of times among the events \<open>evs\<close>, over any subclients, adds exactly
  one message with its \<open>Pid\<close> to the published ones if the \<open>Pid\<close> was not in the cache
  before, and none if it was.
\<close>

theorem C1_dedup_exactly_once:
  "(\<not> IsSession msg \<and> Pid msg \<in> msgCache m \<longrightarrow> router_iter env m (Inbound i msg) = m)
   \<and> (\<not> IsSession msg \<and> Pid msg \<notin> msgCache m \<longrightarrow>
        router_iter env m (Inbound i msg) =
          m\<lparr>msgCache := insert (Pid msg) (msgCache m),
            OnMessage := OnMessage m @ [stripSrc msg]\<rparr>)
   \<and> (\<not> onClose_closed m \<and> (\<forall>ks. Expired ks \<notin> set evs)
        \<and> Inbound i msg \<in> set evs \<and> \<not> IsSession msg \<longrightarrow>
        length (filter (\<lambda>x. Pid x = Pid msg) (OnMessage (router env m evs))) =
          length (filter (\<lambda>x. Pid x = Pid msg) (OnMessage m))
            + (if Pid msg \<in> msgCache m then 0 else 1))"
  using router_iter_seen[of msg m env i] router_iter_fresh[of msg m env i]
    count_seen[of m evs "Pid msg" env] count_new[of m evs msg i env]
  by auto


theorem C1_dedup_exactly_once_witness:
  "router_iter env_ok mc2 (Inbound 0 msg_a) =
     mc2\<lparr>msgCache := {[7, 7]}, OnMessage := [stripSrc msg_a]\<rparr>
   \<and> router_iter env_ok (mc2\<lparr>msgCache := {[7, 7]}, OnMessage := [stripSrc msg_a]\<rparr>)
        (Inbound 1 msg_a) = mc2\<lparr>msgCache := {[7, 7]}, OnMessage := [stripSrc msg_a]\<rparr>
   \<and> length (filter (\<lambda>x. Pid x = [7, 7])
        (OnMessage (router env_ok mc2 [Inbound 0 msg_a, Inbound 1 msg_a, Inbound 0 msg_a]))) = 1"
proof -
  let ?m1 = "mc2\<lparr>msgCache := {[7, 7]}, OnMessage := [stripSrc msg_a]\<rparr>"
  let ?evs = "[Inbound 0 msg_a, Inbound 1 msg_a, Inbound 0 msg_a]"
  have f: "\<not> IsSession msg_a" "Pid msg_a = [7, 7]" by (simp_all add: msg_a_def)
  have s: "msgCache mc2 = {}" "OnMessage mc2 = []" "\<not> onClose_closed mc2"
    by (simp_all add: mc2_def)
  have e: "\<forall>ks. Expired ks \<notin> set ?evs" "Inbound 1 msg_a \<in> set ?evs" by simp_all
  have a: "router_iter env_ok mc2 (Inbound 0 msg_a) = ?m1"
    using C1_dedup_exactly_once[of msg_a mc2 env_ok 0] f s by simp
  have b: "router_iter env_ok ?m1 (Inbound 1 msg_a) = ?m1"
    using C1_dedup_exactly_once[of msg_a ?m1 env_ok 1] f by simp
  have c: "length (filter (\<lambda>x. Pid x = [7, 7]) (OnMessage (router env_ok mc2 ?evs))) = 1"
    using C1_dedup_exactly_once[of msg_a mc2 env_ok 1 ?evs] f s e by simp
  from a b c show ?thesis by blast
qed

section \<open>The source address the application sees\<close>

lemma router_iter_OnMessage:
  "OnMessage (router_iter env m ev) = OnMessage m
   \<or> (\<exists>i msg. ev = Inbound i msg \<and> \<not> IsSession msg
         \<and> OnMessage (router_iter env m ev) = OnMessage m @ [stripSrc msg])"
proof (cases ev)
  case (Inbound i msg)
  show ?thesis
  proof (cases "IsSession msg")
    case True
    then show ?thesis using Inbound router_iter_session[of msg env m i] by simp
  next
    case False
    show ?thesis
    proof (cases "Pid msg \<in> msgCache m")
      case True
      with False Inbound show ?thesis by (simp add: router_iter_seen)
    next
      case n: False
      with False Inbound show ?thesis by (simp add: router_iter_fresh)
    qed
  qed
qed (simp_all add: router_iter_def)

lemma router_published:
  "x \<in> set (OnMessage (router env m evs)) \<Longrightarrow>
     x \<in> set (OnMessage m)
     \<or> (\<exists>i msg. Inbound i msg \<in> set evs \<and> \<not> IsSession msg \<and> x = stripSrc msg)"
proof (induction evs arbitrary: m)
  case Nil
  then show ?case by simp
next
  case (Cons ev evs)
  show ?case
  proof (cases "onClose_closed m")
    case True
    with Cons.prems show ?thesis by simp
  next
    case False
    with Cons.prems have "x \<in> set (OnMessage (router env (router_iter env m ev) evs))"
      by simp
    from Cons.IH[OF this]
    consider (old) "x \<in> set (OnMessage (router_iter env m ev))"
      | (new) i msg where "Inbound i msg \<in> set evs" "\<not> IsSession msg" "x = stripSrc msg"
      by blast
    then show ?thesis
    proof cases
      case old
      from router_iter_OnMessage[of env m ev]
      consider (same) "OnMessage (router_iter env m ev) = OnMessage m"
        | (app) i msg where "ev = Inbound i msg" "\<not> IsSession msg"
            "OnMessage (router_iter env m ev) = OnMessage m @ [stripSrc msg]"
        by blast
      then show ?thesis
      proof cases
        case same
        with old show ?thesis by simp
      next
        case app
        show ?thesis
        proof (cases "x \<in> set (OnMessage m)")
          case True
          then show ?thesis by simp
        next
          case False
          with old app(3) have "x = stripSrc msg" by simp
          moreover have "Inbound i msg \<in> set (ev # evs)" using app(1) by simp
          ultimately show ?thesis using app(2) by blast
        qed
      qed
    next
      case new
      from new(1) have "Inbound i msg \<in> set (ev # evs)" by simp
      with new(2,3) show ?thesis by blast
    qed
  qed
qed

lemma Send_response:
  "result_of (Send env ks rnd rsp m dests data enc mhs) = Returns (Inr x) \<Longrightarrow>
     \<exists>msg. rsp = Received msg \<and> x = stripSrc msg"
  unfolding Send_def result_of_def
  by (simp split: sum.splits outcome.splits option.splits recv.splits prod.splits)

lemma SendWithClient_response:
  "result_of (SendWithClient env rnd rsp m k dests data enc mhs) = Returns (Inr x) \<Longrightarrow>
     \<exists>msg. rsp = Received msg \<and> x = stripSrc msg"
  unfolding SendWithClient_def result_of_def
  by (simp split: sum.splits outcome.splits option.splits recv.splits prod.splits)

lemma strip_subclient_source:
  assumes "\<not> tagged a" and "- 1 \<le> n"
  shows "fst (removeIdentifier (addIdentifier a n)) = a"
proof (cases "0 \<le> n")
  case True
  then show ?thesis by (simp add: strip_add_nonneg)
next
  case False
  with assms(2) have "n = - 1" by simp
  with assms(1) show ?thesis
    by (simp add: addIdentifier_def removeIdentifier_def tagged_def)
qed

text \<open>
  C3 (as amended). Every message that the router publishes on \<open>OnMessage\<close> is an
  inbound application message with one leading subclient tag taken off its \<open>Src\<close>, and
  so is every message that \<open>Send\<close> or \<open>SendWithClient\<close> returns: the \<open>Src\<close> the
  application sees is the first component of \<open>removeIdentifier\<close> of the \<open>Src\<close>
  received. When the sender is subclient \<open>n\<close> (or the original client, \<open>n = -1\<close>) of a
  logical address \<open>a\<close> that does not itself begin with a tag, the application sees \<open>a\<close>,
  which begins with no tag.
\<close>

theorem C3_source_tag_stripped:
  "(x \<in> set (OnMessage (router env m evs)) \<longrightarrow>
      x \<in> set (OnMessage m)
      \<or> (\<exists>i msg. Inbound i msg \<in> set evs \<and> \<not> IsSession msg \<and> x = stripSrc msg))
   \<and> (result_of (Send env ks rnd rsp m dests data enc mhs) = Returns (Inr y) \<longrightarrow>
        (\<exists>msg. rsp = Received msg \<and> y = stripSrc msg))
   \<and> (result_of (SendWithClient env rnd rsp m k dests data enc mhs) = Returns (Inr z) \<longrightarrow>
        (\<exists>msg. rsp = Received msg \<and> z = stripSrc msg))
   \<and> Src (stripSrc msg) = fst (removeIdentifier (Src msg))
   \<and> (\<not> tagged a \<and> - 1 \<le> n \<and> Src msg = addIdentifier a n \<longrightarrow>
        Src (stripSrc msg) = a \<and> \<not> tagged (Src (stripSrc msg)))"
proof (intro conjI impI)
  assume "x \<in> set (OnMessage (router env m evs))"
  then show "x \<in> set (OnMessage m)
      \<or> (\<exists>i msg. Inbound i msg \<in> set evs \<and> \<not> IsSession msg \<and> x = stripSrc msg)"
    by (rule router_published)
next
  assume "result_of (Send env ks rnd rsp m dests data enc mhs) = Returns (Inr y)"
  then show "\<exists>msg. rsp = Received msg \<and> y = stripSrc msg" by (rule Send_response)
next
  assume "result_of (SendWithClient env rnd rsp m k dests data enc mhs) = Returns (Inr z)"
  then show "\<exists>msg. rsp = Received msg \<and> z = stripSrc msg" by (rule SendWithClient_response)
next
  show "Src (stripSrc msg) = fst (removeIdentifier (Src msg))" by (simp add: stripSrc_def)
next
  assume h: "\<not> tagged a \<and> - 1 \<le> n \<and> Src msg = addIdentifier a n"
  then show "Src (stripSrc msg) = a"
    using strip_subclient_source[of a n] by (simp add: stripSrc_def)
  with h show "\<not> tagged (Src (stripSrc msg))" by simp
qed

theorem C3_source_tag_stripped_witness:
  "stripSrc msg_a \<in> set (OnMessage (router env_ok mc2 [Inbound 1 msg_a]))
   \<and> result_of (Send env_ok [0, 1] (Inr [9, 9]) (Received msg_a) mc2 [''b.pk''] [1] True [])
       = Returns (Inr (stripSrc msg_a))
   \<and> result_of (SendWithClient env_ok (Inr [9, 9]) (Received msg_a) mc2 1 [''b.pk''] [1] True [])
       = Returns (Inr (stripSrc msg_a))
   \<and> \<not> tagged ''a.pk'' \<and> Src msg_a = addIdentifier ''a.pk'' 1
   \<and> Src (stripSrc msg_a) = ''a.pk'' \<and> \<not> tagged (Src (stripSrc msg_a))"
proof -
  have c: "Clients mc2 0 = Some \<lparr>c_identifier = ''__0__.id'', responseChannels = {}\<rparr>"
    "Clients mc2 1 = Some \<lparr>c_identifier = ''__1__.id'', responseChannels = {}\<rparr>"
    "offset mc2 = 0" "msgCache mc2 = {}" "OnMessage mc2 = []" "\<not> onClose_closed mc2"
    by (simp_all add: mc2_def)
  have f: "\<not> IsSession msg_a" "Src msg_a = ''__1__.a.pk''" by (simp_all add: msg_a_def)
  have 1: "stripSrc msg_a \<in> set (OnMessage (router env_ok mc2 [Inbound 1 msg_a]))"
    by (simp add: router_iter_def c f)
  have 2: "result_of (Send env_ok [0, 1] (Inr [9, 9]) (Received msg_a) mc2 [''b.pk''] [1] True [])
       = Returns (Inr (stripSrc msg_a))"
    by (simp add: Send_def newBinaryPayload_def sendWithClient_def c
        env_ok_def result_of_def)
  have 3: "result_of (SendWithClient env_ok (Inr [9, 9]) (Received msg_a) mc2 1 [''b.pk''] [1]
             True []) = Returns (Inr (stripSrc msg_a))"
    by (simp add: SendWithClient_def newBinaryPayload_def sendWithClient_def
        c env_ok_def result_of_def)
  have 4: "\<not> tagged ''a.pk''"
    by (simp add: tagged_def leading_segment_def matchIdentifierRe_def)
  have 5: "Src msg_a = addIdentifier ''a.pk'' 1" by (simp add: f tag_strings)
  have 6: "(- 1 :: int) \<le> 1" by simp
  have 7: "\<not> tagged ''a.pk'' \<and> - 1 \<le> (1::int) \<and> Src msg_a = addIdentifier ''a.pk'' 1"
    using 4 5 6 by (intro conjI)
  note T = C3_source_tag_stripped[of "stripSrc msg_a" env_ok mc2 "[Inbound 1 msg_a]" "[0, 1]"
      "Inr [9, 9]" "Received msg_a" "[''b.pk'']" "[1]" True "[]" "stripSrc msg_a" 1
      "stripSrc msg_a" msg_a "''a.pk''" 1]
  from T have "\<not> tagged ''a.pk'' \<and> - 1 \<le> (1::int) \<and> Src msg_a = addIdentifier ''a.pk'' 1
      \<longrightarrow> Src (stripSrc msg_a) = ''a.pk'' \<and> \<not> tagged (Src (stripSrc msg_a))"
    by (elim conjE)
  with 7 have 8: "Src (stripSrc msg_a) = ''a.pk'' \<and> \<not> tagged (Src (stripSrc msg_a))"
    by (rule rev_mp)
  from 1 2 3 4 5 8 show ?thesis by (intro conjI) (elim conjE, assumption)+
qed

text \<open>
  C3 as stated fails for a source with two leading tags: only the first is taken off,
  and the \<open>Src\<close> that the application sees still begins with a tag.
\<close>

theorem C3_double_tag_counterexample:
  "OnMessage (router env_ok mc2 [Inbound 0 msg_double]) = [msg_double\<lparr>Src := ''__2__.x.pk''\<rparr>]
   \<and> tagged ''__2__.x.pk''"
proof -
  have s: "removeIdentifier ''__0__.__2__.x.pk'' = (''__2__.x.pk'', ''__0__'')"
    by (simp add: removeIdentifier_def leading_segment_def remainder_def matchIdentifierRe_def
        is_digit_def)
  have t: "tagged ''__2__.x.pk''"
    by (simp add: tagged_def leading_segment_def matchIdentifierRe_def is_digit_def)
  have c: "msgCache mc2 = {}" "OnMessage mc2 = []" "\<not> onClose_closed mc2"
    by (simp_all add: mc2_def)
  have f: "\<not> IsSession msg_double" "Src msg_double = ''__0__.__2__.x.pk''"
    by (simp_all add: msg_double_def)
  show ?thesis by (simp add: router_iter_def c f stripSrc_def s t)
qed

end
